theory Spec2Isabelle
  imports Main "HOL-Library.Log_Nat"
begin

section \<open>The VoiceGuard page: data model\<close>

text \<open>
  The page \<^verbatim>\<open>app/page.tsx\<close> is one React component, \<^verbatim>\<open>VoiceGuardPage\<close>, with four
  state hooks (\<^verbatim>\<open>file\<close>, \<^verbatim>\<open>result\<close>, \<^verbatim>\<open>isLoading\<close>, \<^verbatim>\<open>error\<close>), three handlers
  (\<^verbatim>\<open>onDrop\<close>, \<^verbatim>\<open>handleAnalyze\<close>, \<^verbatim>\<open>handleReset\<close>) and a render function that decides
  which controls exist. Each handler is modelled as a function from the state to the
  state. The one asynchronous call, \<^verbatim>\<open>fetch\<close>, is split where the code awaits: the part
  of \<^verbatim>\<open>handleAnalyze\<close> before the \<^verbatim>\<open>await\<close> puts a request into the list of requests in
  flight, and the part after it (\<open>settle\<close>) runs when the request's outcome arrives.
\<close>

text \<open>A browser \<^verbatim>\<open>File\<close>: name, MIME type and content.\<close>

record File =
  file_name :: string
  file_type :: string
  file_bytes :: "nat list"

text \<open>
  A JavaScript number is modelled by its exact value, a rational: every finite double is
  one. The two zeros are one value here, and the infinities and NaN have no value: the
  operations below say where they would arise.
\<close>

type_synonym number = rat

text \<open>\<^verbatim>\<open>interface AnalysisResult\<close>.\<close>

datatype prediction = Spoof | Bonafide

record Probabilities =
  bonafide :: number
  spoof :: number

record AnalysisResult =
  prediction :: prediction
  probabilities :: Probabilities
  spectrogram_png :: string

text \<open>
  The request that \<^verbatim>\<open>fetch\<close> sends. The body is a \<^verbatim>\<open>FormData\<close>: a list of named parts, in
  the order they were appended.
\<close>

record request =
  http_method :: string
  url :: string
  body :: "(string \<times> File) list"

text \<open>
  What can come back. A rejected promise carries a thrown value, of which the code reads
  only \<^verbatim>\<open>message\<close> (\<open>None\<close> when the thrown value has none). A response has its status,
  its status text, and what \<^verbatim>\<open>response.json()\<close> will give: a rejection (the body is not
  JSON) or the parsed data, typed \<^verbatim>\<open>AnalysisResult\<close> by the source.
\<close>

datatype js_error = Error (message: "string option")

datatype json_outcome = JsonRejected js_error | JsonData AnalysisResult

record response =
  status :: nat
  statusText :: string
  json :: json_outcome

datatype fetch_outcome = FetchRejected js_error | FetchResolved response

text \<open>\<^verbatim>\<open>response.ok\<close> of the Fetch API: the status is in the range 200 to 299.\<close>

definition ok :: "response \<Rightarrow> bool" where
  "ok r = (200 \<le> status r \<and> status r \<le> 299)"

text \<open>
  The state of the page: the four hooks, and the requests that were sent and have not
  settled yet. (The hook \<^verbatim>\<open>file\<close> is the field \<open>file_sel\<close>: \<open>file\<close> is a keyword here.)
\<close>

record session =
  file_sel :: "File option"
  result :: "AnalysisResult option"
  isLoading :: bool
  error :: "string option"
  inflight :: "request list"

text \<open>The state at page load: the initial values of the four \<^verbatim>\<open>useState\<close> calls.\<close>

definition VoiceGuardPage :: session where
  "VoiceGuardPage = \<lparr>file_sel = None, result = None, isLoading = False, error = None, inflight = []\<rparr>"

section \<open>The handlers\<close>

text \<open>
  \<^verbatim>\<open>onDrop\<close>: with a non-empty list, clear the error and select the first file; with an
  empty list, nothing.
\<close>

definition onDrop :: "File list \<Rightarrow> session \<Rightarrow> session" where
  "onDrop acceptedFiles s =
     (case acceptedFiles of
        [] \<Rightarrow> s
      | f # _ \<Rightarrow> s\<lparr>error := None, file_sel := Some f\<rparr>)"

text \<open>\<^verbatim>\<open>formData.append(name, file)\<close>.\<close>

definition append_part :: "string \<Rightarrow> File \<Rightarrow> (string \<times> File) list \<Rightarrow> (string \<times> File) list" where
  "append_part name f formData = formData @ [(name, f)]"

text \<open>The request of \<^verbatim>\<open>handleAnalyze\<close> for the file \<open>f\<close>.\<close>

definition predict_request :: "File \<Rightarrow> request" where
  "predict_request f =
     \<lparr>http_method = ''POST'', url = ''http://127.0.0.1:8000/predict'', body = append_part ''file'' f []\<rparr>"

text \<open>
  \<^verbatim>\<open>handleAnalyze\<close>, up to the \<^verbatim>\<open>await fetch(...)\<close>: return when there is no file; otherwise
  set the loading flag, clear error and result, and send the request. The only guard in
  the function is the one on \<^verbatim>\<open>file\<close>.
\<close>

definition handleAnalyze :: "session \<Rightarrow> session" where
  "handleAnalyze s =
     (case file_sel s of
        None \<Rightarrow> s
      | Some f \<Rightarrow>
          s\<lparr>isLoading := True, error := None, result := None,
            inflight := inflight s @ [predict_request f]\<rparr>)"

text \<open>
  The \<^verbatim>\<open>try\<close> block of \<^verbatim>\<open>handleAnalyze\<close> after the fetch has an outcome: a rejected fetch
  throws; a response that is not \<^verbatim>\<open>ok\<close> throws \<^verbatim>\<open>Error(`Server error: ${statusText}`)\<close>;
  otherwise \<^verbatim>\<open>response.json()\<close> throws or gives the data.
\<close>

definition try_block :: "fetch_outcome \<Rightarrow> js_error + AnalysisResult" where
  "try_block out =
     (case out of
        FetchRejected e \<Rightarrow> Inl e
      | FetchResolved r \<Rightarrow>
          if \<not> ok r then Inl (Error (Some (''Server error: '' @ statusText r)))
          else (case json r of JsonRejected e \<Rightarrow> Inl e | JsonData d \<Rightarrow> Inr d))"

text \<open>
  \<^verbatim>\<open>err.message || 'An unexpected error occurred. Please try again.'\<close>: the fallback is
  taken when the message is missing or is the empty string.
\<close>

definition fallback_message :: string where
  "fallback_message = ''An unexpected error occurred. Please try again.''"

definition message_or_fallback :: "js_error \<Rightarrow> string" where
  "message_or_fallback err =
     (case message err of
        None \<Rightarrow> fallback_message
      | Some m \<Rightarrow> if m = [] then fallback_message else m)"

text \<open>
  The rest of \<^verbatim>\<open>handleAnalyze\<close>, run when the request settles: \<^verbatim>\<open>setResult(data)\<close> or, in
  the \<^verbatim>\<open>catch\<close>, \<^verbatim>\<open>setError(...)\<close>; then, in the \<^verbatim>\<open>finally\<close>, \<^verbatim>\<open>setIsLoading(false)\<close>. The
  setters act on the state as it is when the outcome arrives. The settled request
  leaves the list of requests in flight.
\<close>

definition settle :: "fetch_outcome \<Rightarrow> session \<Rightarrow> session" where
  "settle out s =
     (let s1 = (case try_block out of
                  Inr d \<Rightarrow> s\<lparr>result := Some d\<rparr>
                | Inl err \<Rightarrow> s\<lparr>error := Some (message_or_fallback err)\<rparr>)
      in s1\<lparr>isLoading := False, inflight := tl (inflight s1)\<rparr>)"

text \<open>\<^verbatim>\<open>handleReset\<close>: three setters; \<^verbatim>\<open>isLoading\<close> is not among them.\<close>

definition handleReset :: "session \<Rightarrow> session" where
  "handleReset s = s\<lparr>file_sel := None, result := None, error := None\<rparr>"

section \<open>The controls\<close>

text \<open>
  \<^verbatim>\<open>AnalyzeButton\<close>: a button with \<^verbatim>\<open>onClick={handleAnalyze}\<close> and
  \<^verbatim>\<open>disabled={!file || isLoading}\<close>. A disabled button receives no click, so the analyze
  operation a user can invoke is \<^verbatim>\<open>handleAnalyze\<close> behind this guard.
\<close>

definition AnalyzeButton :: "session \<Rightarrow> session" where
  "AnalyzeButton s = (if file_sel s = None \<or> isLoading s then s else handleAnalyze s)"

text \<open>
  What can happen to the page: a drop on the upload zone, a click on the analyze button,
  a click on the reset button of the result panel, and the settlement of a request in
  flight. A request can settle only when one is in flight.
\<close>

datatype event = Drop "File list" | ClickAnalyze | ClickReset | Settle fetch_outcome

definition step :: "event \<Rightarrow> session \<Rightarrow> session" where
  "step ev s =
     (case ev of
        Drop acceptedFiles \<Rightarrow> onDrop acceptedFiles s
      | ClickAnalyze \<Rightarrow> AnalyzeButton s
      | ClickReset \<Rightarrow> handleReset s
      | Settle out \<Rightarrow> if inflight s = [] then s else settle out s)"

text \<open>The state after a list of events, from page load.\<close>

definition run :: "event list \<Rightarrow> session" where
  "run evs = fold step evs VoiceGuardPage"

text \<open>The events that come from the user, as opposed to the network.\<close>

definition user_event :: "event \<Rightarrow> bool" where
  "user_event ev = (case ev of Settle _ \<Rightarrow> False | _ \<Rightarrow> True)"

text \<open>
  The render function shows the upload zone and the analyze button only while there is
  no result (\<^verbatim>\<open>{!result && (...)}\<close>), and the result panel with its reset button only
  while there is one (\<^verbatim>\<open>{result && <ResultDisplay ... onReset={handleReset} />}\<close>). A
  control that is not rendered receives no event, so the page itself takes fewer steps
  than \<open>step\<close> allows.
\<close>

definition rendered :: "event \<Rightarrow> session \<Rightarrow> bool" where
  "rendered ev s =
     (case ev of
        Drop _ \<Rightarrow> result s = None
      | ClickAnalyze \<Rightarrow> result s = None
      | ClickReset \<Rightarrow> result s \<noteq> None
      | Settle _ \<Rightarrow> True)"

definition page_step :: "event \<Rightarrow> session \<Rightarrow> session" where
  "page_step ev s = (if rendered ev s then step ev s else s)"

definition page_run :: "event list \<Rightarrow> session" where
  "page_run evs = fold page_step evs VoiceGuardPage"

section \<open>Numbers and their display\<close>

text \<open>
  The result panel computes \<^verbatim>\<open>(p * 100).toFixed(2)\<close>. The product is a double: the exact
  product rounded to the nearest double, ties to the even significand. \<open>ilog2 x\<close> is the
  binary exponent of a positive \<open>x\<close>, the \<open>k\<close> with \<open>2 ^ k \<le> x < 2 ^ (k + 1)\<close>; a double has
  53 significant bits, and no bit below \<open>2 ^ - 1074\<close>.
\<close>

definition ilog2 :: "rat \<Rightarrow> int" where
  "ilog2 x = (if 1 \<le> x then bitlen \<lfloor>x\<rfloor> - 1 else - bitlen (\<lceil>1 / x\<rceil> - 1))"

definition round_half_even :: "rat \<Rightarrow> int" where
  "round_half_even x =
     (let n = \<lfloor>x\<rfloor>; r = x - of_int n
      in if r < 1 / 2 then n else if 1 / 2 < r then n + 1 else if even n then n else n + 1)"

definition round_double :: "rat \<Rightarrow> number" where
  "round_double x =
     (if x = 0 then 0
      else let e = max (ilog2 \<bar>x\<bar> - 52) (- 1074)
           in sgn x * of_int (round_half_even (\<bar>x\<bar> / 2 powi e)) * 2 powi e)"

text \<open>
  \<^verbatim>\<open>x * y\<close> on two finite doubles. \<open>None\<close>: the rounded product is beyond the largest
  double, where JavaScript gives an infinity.
\<close>

definition js_times :: "number \<Rightarrow> number \<Rightarrow> number option" where
  "js_times x y = (let z = round_double (x * y) in if \<bar>z\<bar> < 2 ^ 1024 then Some z else None)"

text \<open>The decimal digits of a natural number, without leading zeros.\<close>

definition digit_char :: "nat \<Rightarrow> char" where
  "digit_char d = ''0123456789'' ! d"

fun digits :: "nat \<Rightarrow> string" where
  "digits n = (if n < 10 then [digit_char n] else digits (n div 10) @ [digit_char (n mod 10)])"

declare digits.simps [simp del]

text \<open>
  \<^verbatim>\<open>Number.prototype.toFixed(f)\<close> as ECMAScript defines it on a finite number below
  \<open>10 ^ 21\<close> in size: take the integer \<open>n\<close> for which \<open>n / 10 ^ f\<close> is nearest to the size
  of \<open>x\<close>, the larger one of two; write its digits, padded with zeros to \<open>f + 1\<close> digits,
  with a point before the last \<open>f\<close>; put a minus sign in front when \<open>x < 0\<close>. \<open>None\<close>: the
  call throws a RangeError (\<open>f\<close> above 100) or prints in exponent notation (a size of
  \<open>10 ^ 21\<close> or more); neither is modelled.
\<close>

definition fixed_string :: "nat \<Rightarrow> nat \<Rightarrow> string" where
  "fixed_string f n =
     (let m = digits n
      in if f = 0 then m
         else let m' = (if length m \<le> f then replicate (f + 1 - length m) CHR ''0'' @ m else m);
                  k = length m'
              in take (k - f) m' @ ''.'' @ drop (k - f) m')"

definition toFixed :: "nat \<Rightarrow> number \<Rightarrow> string option" where
  "toFixed f x =
     (if 100 < f \<or> 10 ^ 21 \<le> \<bar>x\<bar> then None
      else Some ((if x < 0 then ''-'' else []) @
                 fixed_string f (nat \<lfloor>\<bar>x\<bar> * 10 ^ f + 1 / 2\<rfloor>)))"

text \<open>\<^verbatim>\<open>(p * 100).toFixed(2)\<close>.\<close>

definition percent :: "number \<Rightarrow> string option" where
  "percent p = Option.bind (js_times p 100) (toFixed 2)"

text \<open>
  \<^verbatim>\<open>ResultDisplay\<close>: the values it derives from the result. \<open>probability_of\<close> is the
  indexing \<^verbatim>\<open>result.probabilities[result.prediction]\<close>.
\<close>

definition isSpoof :: "AnalysisResult \<Rightarrow> bool" where
  "isSpoof r = (prediction r = Spoof)"

definition probability_of :: "Probabilities \<Rightarrow> prediction \<Rightarrow> number" where
  "probability_of p k = (case k of Spoof \<Rightarrow> spoof p | Bonafide \<Rightarrow> bonafide p)"

definition confidence :: "AnalysisResult \<Rightarrow> string option" where
  "confidence r = percent (probability_of (probabilities r) (prediction r))"

definition spoofProbability :: "AnalysisResult \<Rightarrow> string option" where
  "spoofProbability r = percent (spoof (probabilities r))"

definition bonafideProbability :: "AnalysisResult \<Rightarrow> string option" where
  "bonafideProbability r = percent (bonafide (probabilities r))"

text \<open>
  Reading a displayed percentage back, to state what the displayed strings add up to:
  the number that a string of digits with a point in it denotes.
\<close>

definition digit_value :: "char \<Rightarrow> nat" where
  "digit_value c = length (takeWhile (\<lambda>d. d \<noteq> c) ''0123456789'')"

definition decimal_value :: "string \<Rightarrow> nat" where
  "decimal_value s = foldl (\<lambda>a c. 10 * a + digit_value c) 0 s"

definition fixed_value :: "string \<Rightarrow> rat" where
  "fixed_value s =
     (let a = takeWhile (\<lambda>c. c \<noteq> CHR ''.'') s; b = drop (length a + 1) s
      in of_nat (decimal_value a) + of_nat (decimal_value b) / 10 ^ length b)"

section \<open>Sample values\<close>

text \<open>Files, results and states, used where a statement is run on an input.\<close>

definition wav :: File where
  "wav = \<lparr>file_name = ''voice.wav'', file_type = ''audio/wav'', file_bytes = [82, 73, 70, 70]\<rparr>"

definition flac :: File where
  "flac = \<lparr>file_name = ''voice.flac'', file_type = ''audio/flac'', file_bytes = [102, 76, 97, 67]\<rparr>"

definition genuine :: AnalysisResult where
  "genuine = \<lparr>prediction = Bonafide, probabilities = \<lparr>bonafide = 3 / 4, spoof = 1 / 4\<rparr>,
     spectrogram_png = ''data:image/png;base64,''\<rparr>"

text \<open>
  The body \<^verbatim>\<open>{prediction: "bonafide", probabilities: {bonafide: 0.92, spoof: 0.08},
  spectrogram_png: "data:..."}\<close>: a JSON number is read as the double nearest to it.
\<close>

definition bonafide_body :: AnalysisResult where
  "bonafide_body =
     \<lparr>prediction = Bonafide,
      probabilities = \<lparr>bonafide = round_double (92 / 100), spoof = round_double (8 / 100)\<rparr>,
      spectrogram_png = ''data:image/png;base64,''\<rparr>"

text \<open>A body whose two displayed percentages do not add up to 100.\<close>

definition skewed_body :: AnalysisResult where
  "skewed_body =
     \<lparr>prediction = Bonafide,
      probabilities = \<lparr>bonafide = round_double (87655 / 100000),
                        spoof = round_double (12345 / 100000)\<rparr>,
      spectrogram_png = ''data:image/png;base64,''\<rparr>"

definition selected :: session where
  "selected = \<lparr>file_sel = Some wav, result = None, isLoading = False, error = None, inflight = []\<rparr>"

definition analyzing :: session where
  "analyzing = \<lparr>file_sel = Some wav, result = None, isLoading = True, error = None,
     inflight = [predict_request wav]\<rparr>"

definition succeeded :: session where
  "succeeded = \<lparr>file_sel = Some wav, result = Some genuine, isLoading = False, error = None,
     inflight = []\<rparr>"

section \<open>An invariant of the page\<close>

text \<open>
  At most one request is in flight; the loading flag is set exactly while one is; while
  it is set there is neither a result nor an error; and a result excludes an error.
\<close>

definition page_inv :: "session \<Rightarrow> bool" where
  "page_inv s =
     (length (inflight s) \<le> 1 \<and> (isLoading s \<longleftrightarrow> inflight s \<noteq> []) \<and>
      (isLoading s \<longrightarrow> result s = None \<and> error s = None) \<and>
      (result s \<noteq> None \<longrightarrow> error s = None))"

lemma page_inv_init: "page_inv VoiceGuardPage"
  by (simp add: page_inv_def VoiceGuardPage_def)

lemma page_inv_onDrop: "page_inv s \<Longrightarrow> page_inv (onDrop fs s)"
  by (cases fs) (auto simp: page_inv_def onDrop_def)

lemma page_inv_AnalyzeButton: "page_inv s \<Longrightarrow> page_inv (AnalyzeButton s)"
  by (auto simp: page_inv_def AnalyzeButton_def handleAnalyze_def split: option.splits)

lemma page_inv_handleReset: "page_inv s \<Longrightarrow> page_inv (handleReset s)"
  by (auto simp: page_inv_def handleReset_def)

lemma page_inv_settle: "page_inv s \<Longrightarrow> inflight s \<noteq> [] \<Longrightarrow> page_inv (settle out s)"
  by (cases "inflight s") (auto simp: page_inv_def settle_def Let_def split: sum.splits)

lemma page_inv_step: "page_inv s \<Longrightarrow> page_inv (step ev s)"
  by (cases ev)
    (simp_all add: step_def page_inv_onDrop page_inv_AnalyzeButton page_inv_handleReset
      page_inv_settle)

lemma page_inv_fold: "page_inv s \<Longrightarrow> page_inv (fold step evs s)"
  by (induction evs arbitrary: s) (simp_all add: page_inv_step)

lemma page_inv_run: "page_inv (run evs)"
  unfolding run_def by (rule page_inv_fold [OF page_inv_init])

text \<open>
  Every state of the page as it is rendered is a state of \<open>run\<close>: hiding a control only
  removes steps. What holds of every \<open>run evs\<close> holds of every state the page can be in.
\<close>

lemma page_run_is_run: "\<exists>evs'. page_run evs = run evs'"
proof (induction evs rule: rev_induct)
  case Nil
  show ?case by (rule exI [of _ "[]"]) (simp add: page_run_def run_def)
next
  case (snoc ev evs)
  then obtain evs' where e: "page_run evs = run evs'" by blast
  show ?case
  proof (cases "rendered ev (page_run evs)")
    case True
    then have "page_run (evs @ [ev]) = run (evs' @ [ev])"
      using e by (simp add: page_run_def run_def page_step_def)
    then show ?thesis by blast
  next
    case False
    then have "page_run (evs @ [ev]) = run evs'"
      using e by (simp add: page_run_def run_def page_step_def)
    then show ?thesis by blast
  qed
qed

lemma page_inv_page_run: "page_inv (page_run evs)"
  using page_run_is_run [of evs] page_inv_run by auto

section \<open>Between the click and the settlement\<close>

lemma settle_isLoading: "isLoading (settle out s) = False"
  by (simp add: settle_def Let_def split: sum.splits)

text \<open>
  While the loading flag is set, nothing the user does sets a result or an error, clears
  the flag or sends a request.
\<close>

lemma user_events_while_loading:
  assumes "isLoading s" "result s = None" "error s = None" "\<forall>ev\<in>set evs. user_event ev"
  shows "isLoading (fold step evs s) \<and> result (fold step evs s) = None \<and>
         error (fold step evs s) = None \<and> inflight (fold step evs s) = inflight s"
  using assms
proof (induction evs arbitrary: s)
  case Nil
  then show ?case by simp
next
  case (Cons ev evs)
  have "isLoading (step ev s) \<and> result (step ev s) = None \<and> error (step ev s) = None \<and>
        inflight (step ev s) = inflight s"
    using Cons.prems
    by (cases ev)
      (auto simp: step_def onDrop_def AnalyzeButton_def handleReset_def user_event_def
        split: list.splits)
  then show ?case using Cons.IH [of "step ev s"] Cons.prems(4) by simp
qed

lemma AnalyzeButton_starts:
  assumes "file_sel s = Some f" "\<not> isLoading s"
  shows "AnalyzeButton s =
           s\<lparr>isLoading := True, error := None, result := None,
             inflight := inflight s @ [predict_request f]\<rparr>"
  using assms by (simp add: AnalyzeButton_def handleAnalyze_def)

section \<open>The analyze operation\<close>

text \<open>
  The guard against a second request is the \<^verbatim>\<open>disabled\<close> attribute of the button, the
  only caller of \<^verbatim>\<open>handleAnalyze\<close>. The handler has none: called with \<open>isLoading\<close> true
  and a file selected, it would send a second request.
\<close>

lemma handleAnalyze_has_no_loading_guard:
  "inflight (handleAnalyze analyzing) = [predict_request wav, predict_request wav]"
  by (simp add: analyzing_def handleAnalyze_def)

text \<open>
  Claim C1. In every state in which \<open>isLoading\<close> is true, the analyze operation (the
  click on the analyze button) is a no-op: the state, with its requests in flight, is
  the same after it, so no request is sent. And after any list of events from page load,
  whether every control takes them or only the rendered ones do, at most one request is
  in flight.
\<close>

theorem analyze_while_loading_is_noop:
  "(isLoading s \<longrightarrow> AnalyzeButton s = s) \<and>
   length (inflight (run evs)) \<le> 1 \<and> length (inflight (page_run evs)) \<le> 1"
  using page_inv_run [of evs] page_inv_page_run [of evs]
  by (simp add: AnalyzeButton_def page_inv_def)

theorem analyze_while_loading_is_noop_witness:
  "isLoading analyzing \<and> AnalyzeButton analyzing = analyzing \<and>
   inflight (run [Drop [wav], ClickAnalyze, Drop [flac], ClickAnalyze]) = [predict_request wav] \<and>
   length (inflight (run [Drop [wav], ClickAnalyze, Drop [flac], ClickAnalyze])) \<le> 1 \<and>
   length (inflight (page_run [Drop [wav], ClickAnalyze, Drop [flac], ClickAnalyze])) \<le> 1"
  using analyze_while_loading_is_noop
    [of analyzing "[Drop [wav], ClickAnalyze, Drop [flac], ClickAnalyze]"]
  by (simp add: analyzing_def run_def step_def onDrop_def AnalyzeButton_def handleAnalyze_def
      VoiceGuardPage_def)

text \<open>
  Claim C6. In every state in which no file is selected, the analyze operation is a
  no-op, as the handler itself and as the button: the state, with its requests in
  flight, is the same after it.
\<close>

theorem analyze_without_file_is_noop:
  "file_sel s = None \<Longrightarrow> handleAnalyze s = s \<and> AnalyzeButton s = s"
  by (simp add: handleAnalyze_def AnalyzeButton_def)

theorem analyze_without_file_is_noop_witness:
  "file_sel VoiceGuardPage = None \<and> handleAnalyze VoiceGuardPage = VoiceGuardPage \<and>
   AnalyzeButton VoiceGuardPage = VoiceGuardPage"
  using analyze_without_file_is_noop [of VoiceGuardPage] by (simp add: VoiceGuardPage_def)

text \<open>
  Claim C5. In every state in which a file \<open>f\<close> is selected and \<open>isLoading\<close> is false,
  the analyze operation runs the handler; the handler sets \<open>isLoading\<close>, clears error and
  result, and adds exactly one request to those in flight: a POST to a URL with the path
  \<^verbatim>\<open>/predict\<close> whose body has the single part \<^verbatim>\<open>file\<close>, carrying \<open>f\<close>. And whatever the
  outcome of a request and whatever the state it arrives in, \<open>isLoading\<close> is false after
  the settlement.
\<close>

theorem analyze_sends_one_request:
  assumes "file_sel s = Some f" and "\<not> isLoading s"
  shows "AnalyzeButton s = handleAnalyze s \<and>
         handleAnalyze s =
           s\<lparr>isLoading := True, error := None, result := None,
             inflight := inflight s @
               [\<lparr>http_method = ''POST'', url = ''http://127.0.0.1:8000/predict'',
                 body = [(''file'', f)]\<rparr>]\<rparr> \<and>
         isLoading (settle out s') = False"
  using assms
  by (simp add: AnalyzeButton_def handleAnalyze_def predict_request_def append_part_def
      settle_isLoading)

theorem analyze_sends_one_request_witness:
  "file_sel selected = Some wav \<and> \<not> isLoading selected \<and>
   AnalyzeButton selected = analyzing \<and> handleAnalyze selected = analyzing \<and>
   inflight analyzing =
     [\<lparr>http_method = ''POST'', url = ''http://127.0.0.1:8000/predict'', body = [(''file'', wav)]\<rparr>] \<and>
   isLoading (settle (FetchRejected (Error None)) analyzing) = False"
  using analyze_sends_one_request [of selected wav "FetchRejected (Error None)" analyzing]
  by (simp add: selected_def analyzing_def predict_request_def append_part_def)

section \<open>Settlement with a failure\<close>

text \<open>
  Claim C3. Let a file be selected and \<open>isLoading\<close> be false, let the user click the
  analyze button and then do anything at all (\<open>evs\<close>: drops and clicks), and let the
  request complete with a status outside 200 to 299. After the settlement \<open>isLoading\<close> is
  false, there is no result, and the error message is \<^verbatim>\<open>Server error: \<close> followed by the
  status text of the response.
\<close>

theorem server_error_settlement:
  assumes "file_sel s = Some f" and "\<not> isLoading s"
    and "\<forall>ev\<in>set evs. user_event ev"
    and "status r < 200 \<or> 299 < status r"
  shows "isLoading (settle (FetchResolved r) (fold step evs (AnalyzeButton s))) = False \<and>
         result (settle (FetchResolved r) (fold step evs (AnalyzeButton s))) = None \<and>
         error (settle (FetchResolved r) (fold step evs (AnalyzeButton s))) =
           Some (''Server error: '' @ statusText r)"
proof -
  let ?a = "AnalyzeButton s"
  have a: "isLoading ?a" "result ?a = None" "error ?a = None"
    using assms(1,2) by (simp_all add: AnalyzeButton_starts)
  have t: "try_block (FetchResolved r) = Inl (Error (Some (''Server error: '' @ statusText r)))"
    using assms(4) by (auto simp: try_block_def ok_def)
  show ?thesis
    using user_events_while_loading [OF a assms(3)]
    by (simp add: settle_def t message_or_fallback_def)
qed

theorem server_error_settlement_witness:
  "file_sel selected = Some wav \<and> \<not> isLoading selected \<and>
   user_event (Drop [flac]) \<and> user_event ClickAnalyze \<and>
   settle (FetchResolved \<lparr>status = 500, statusText = ''Internal Server Error'',
                           json = JsonRejected (Error None)\<rparr>)
     (fold step [Drop [flac], ClickAnalyze] (AnalyzeButton selected)) =
   \<lparr>file_sel = Some flac, result = None, isLoading = False,
    error = Some ''Server error: Internal Server Error'', inflight = []\<rparr>"
  using server_error_settlement [of selected wav "[Drop [flac], ClickAnalyze]"
      "\<lparr>status = 500, statusText = ''Internal Server Error'', json = JsonRejected (Error None)\<rparr>"]
  by (simp add: selected_def step_def onDrop_def AnalyzeButton_def handleAnalyze_def settle_def
      try_block_def ok_def user_event_def message_or_fallback_def)

text \<open>
  Claim C4. Let a file be selected and \<open>isLoading\<close> be false, let the user click the
  analyze button and then do anything at all, and let the request fail below HTTP: the
  fetch is rejected, or the response has a status in 200 to 299 and its body is not
  JSON, either way with the thrown value \<open>err\<close>. After the settlement \<open>isLoading\<close> is
  false, there is no result, and the error message is the message of \<open>err\<close>, or the
  fallback text when \<open>err\<close> has no message or an empty one; it is never empty.
\<close>

theorem network_failure_settlement:
  assumes "file_sel s = Some f" and "\<not> isLoading s"
    and "\<forall>ev\<in>set evs. user_event ev"
    and "out = FetchRejected err \<or>
         (\<exists>r. out = FetchResolved r \<and> 200 \<le> status r \<and> status r \<le> 299 \<and>
              json r = JsonRejected err)"
  shows "isLoading (settle out (fold step evs (AnalyzeButton s))) = False \<and>
         result (settle out (fold step evs (AnalyzeButton s))) = None \<and>
         error (settle out (fold step evs (AnalyzeButton s))) =
           Some (case message err of
                   None \<Rightarrow> ''An unexpected error occurred. Please try again.''
                 | Some m \<Rightarrow>
                     if m = [] then ''An unexpected error occurred. Please try again.'' else m) \<and>
         error (settle out (fold step evs (AnalyzeButton s))) \<noteq> Some []"
proof -
  let ?a = "AnalyzeButton s"
  have a: "isLoading ?a" "result ?a = None" "error ?a = None"
    using assms(1,2) by (simp_all add: AnalyzeButton_starts)
  have t: "try_block out = Inl err"
    using assms(4) by (auto simp: try_block_def ok_def)
  show ?thesis
    using user_events_while_loading [OF a assms(3)]
    by (simp add: settle_def t message_or_fallback_def fallback_message_def split: option.splits)
qed

theorem network_failure_settlement_witness:
  "file_sel selected = Some wav \<and> \<not> isLoading selected \<and>
   user_event (Drop [flac]) \<and>
   settle (FetchRejected (Error (Some ''Failed to fetch'')))
     (fold step [Drop [flac]] (AnalyzeButton selected)) =
   \<lparr>file_sel = Some flac, result = None, isLoading = False,
    error = Some ''Failed to fetch'', inflight = []\<rparr> \<and>
   settle (FetchResolved \<lparr>status = 200, statusText = ''OK'', json = JsonRejected (Error None)\<rparr>)
     (fold step [Drop [flac]] (AnalyzeButton selected)) =
   \<lparr>file_sel = Some flac, result = None, isLoading = False,
    error = Some ''An unexpected error occurred. Please try again.'', inflight = []\<rparr>"
  using network_failure_settlement [of selected wav "[Drop [flac]]"
      "FetchRejected (Error (Some ''Failed to fetch''))" "Error (Some ''Failed to fetch'')"]
    network_failure_settlement [of selected wav "[Drop [flac]]"
      "FetchResolved \<lparr>status = 200, statusText = ''OK'', json = JsonRejected (Error None)\<rparr>"
      "Error None"]
  by (simp add: selected_def step_def onDrop_def AnalyzeButton_def handleAnalyze_def settle_def
      try_block_def ok_def user_event_def message_or_fallback_def fallback_message_def)

section \<open>Drop and reset\<close>

lemma fold_onDrop:
  "drops \<noteq> [] \<Longrightarrow> \<forall>d\<in>set drops. d \<noteq> [] \<Longrightarrow>
   fold onDrop drops s = s\<lparr>error := None, file_sel := Some (hd (last drops))\<rparr>"
proof (induction drops arbitrary: s rule: rev_induct)
  case Nil
  then show ?case by simp
next
  case (snoc d drops)
  from snoc.prems obtain f fs where d: "d = f # fs" by (cases d) auto
  show ?case
  proof (cases "drops = []")
    case True
    then show ?thesis by (simp add: d onDrop_def)
  next
    case False
    then show ?thesis using snoc by (simp add: d onDrop_def)
  qed
qed

text \<open>
  Claim C7. For every list \<open>drops\<close> of non-empty file lists dropped one after the other
  on a state \<open>s\<close>, the state after the \<open>n\<close>-th drop is \<open>s\<close> with the first file of the
  \<open>n\<close>-th list selected and the error cleared: result, loading flag and requests in
  flight are those of \<open>s\<close>, so no drop has changed them.
\<close>

theorem drop_selects_latest_file:
  assumes "\<forall>d\<in>set drops. d \<noteq> []" and "0 < n" and "n \<le> length drops"
  shows "fold onDrop (take n drops) s =
           s\<lparr>error := None, file_sel := Some (hd (drops ! (n - 1)))\<rparr>"
proof -
  have ne: "take n drops \<noteq> []" using assms by auto
  have all: "\<forall>d\<in>set (take n drops). d \<noteq> []"
    using assms(1) by (meson in_set_takeD)
  have "last (take n drops) = take n drops ! (length (take n drops) - 1)"
    using ne by (rule last_conv_nth)
  then have "last (take n drops) = drops ! (n - 1)"
    using assms(2,3) by simp
  then show ?thesis using fold_onDrop [OF ne all, of s] by simp
qed

theorem drop_selects_latest_file_witness:
  "[wav] \<noteq> [] \<and> [flac, wav] \<noteq> [] \<and> (0::nat) < 2 \<and> 2 \<le> length [[wav], [flac, wav]] \<and>
   fold onDrop (take 2 [[wav], [flac, wav]]) succeeded =
     \<lparr>file_sel = Some flac, result = Some genuine, isLoading = False, error = None,
      inflight = []\<rparr>"
  using drop_selects_latest_file [of "[[wav], [flac, wav]]" 2 succeeded]
  by (simp add: succeeded_def)

text \<open>
  Claim C8, as stated, fails: \<^verbatim>\<open>handleReset\<close> does not touch \<open>isLoading\<close>, so from a state
  in which it is true it stays true.
\<close>

theorem reset_keeps_loading_counterexample:
  "isLoading (handleReset \<lparr>file_sel = Some wav, result = None, isLoading = True, error = None,
     inflight = [predict_request wav]\<rparr>) \<noteq> False"
  by (simp add: handleReset_def)

text \<open>
  Claim C8, amended. From every state, reset yields no selected file, no result and no
  error, and leaves \<open>isLoading\<close> and the requests in flight as they were. After any list
  of events from page load, if there is a result (the reset button is rendered only
  then), \<open>isLoading\<close> is false after the reset.
\<close>

theorem reset_clears_selection:
  "file_sel (handleReset s) = None \<and> result (handleReset s) = None \<and>
   error (handleReset s) = None \<and> isLoading (handleReset s) = isLoading s \<and>
   inflight (handleReset s) = inflight s \<and>
   (result (run evs) \<noteq> None \<longrightarrow> isLoading (handleReset (run evs)) = False)"
  using page_inv_run [of evs] by (auto simp: handleReset_def page_inv_def)

theorem reset_clears_selection_witness:
  "result (run [Drop [wav], ClickAnalyze,
      Settle (FetchResolved \<lparr>status = 200, statusText = ''OK'', json = JsonData genuine\<rparr>)]) \<noteq> None \<and>
   handleReset (run [Drop [wav], ClickAnalyze,
      Settle (FetchResolved \<lparr>status = 200, statusText = ''OK'', json = JsonData genuine\<rparr>)])
     = VoiceGuardPage"
  using reset_clears_selection [of "run [Drop [wav], ClickAnalyze,
      Settle (FetchResolved \<lparr>status = 200, statusText = ''OK'', json = JsonData genuine\<rparr>)]"
      "[Drop [wav], ClickAnalyze,
      Settle (FetchResolved \<lparr>status = 200, statusText = ''OK'', json = JsonData genuine\<rparr>)]"]
  by (simp add: run_def step_def onDrop_def AnalyzeButton_def handleAnalyze_def settle_def
      try_block_def ok_def handleReset_def VoiceGuardPage_def)

section \<open>Result and error exclude each other\<close>

text \<open>
  Claim C9. After any list of events from page load (drops, clicks on the analyze
  button, settlements with any outcome, resets, in any order), whether every control
  takes them or only the rendered ones do, the result and the error message are not both
  set.
\<close>

theorem result_and_error_exclusive:
  "\<not> (result (run evs) \<noteq> None \<and> error (run evs) \<noteq> None) \<and>
   \<not> (result (page_run evs) \<noteq> None \<and> error (page_run evs) \<noteq> None)"
  using page_inv_run [of evs] page_inv_page_run [of evs] by (auto simp: page_inv_def)

theorem result_and_error_exclusive_witness:
  "result (run [Drop [wav], ClickAnalyze, Settle (FetchRejected (Error None)), ClickAnalyze,
      Settle (FetchResolved \<lparr>status = 200, statusText = ''OK'', json = JsonData genuine\<rparr>)])
     = Some genuine \<and>
   error (run [Drop [wav], ClickAnalyze, Settle (FetchRejected (Error None)), ClickAnalyze,
      Settle (FetchResolved \<lparr>status = 200, statusText = ''OK'', json = JsonData genuine\<rparr>)])
     = None"
  using result_and_error_exclusive [of "[Drop [wav], ClickAnalyze,
      Settle (FetchRejected (Error None)), ClickAnalyze,
      Settle (FetchResolved \<lparr>status = 200, statusText = ''OK'', json = JsonData genuine\<rparr>)]"]
  by (simp add: run_def step_def onDrop_def AnalyzeButton_def handleAnalyze_def settle_def
      try_block_def ok_def VoiceGuardPage_def message_or_fallback_def)

section \<open>Rounding to a double\<close>

text \<open>
  Rounding to an integer is off by at most a half, \<open>ilog2\<close> is the binary exponent, and so
  rounding to a double is off by at most half a unit in the last place.
\<close>

lemma round_half_even_error: "\<bar>of_int (round_half_even y) - y\<bar> \<le> 1 / 2"
proof -
  have "of_int \<lfloor>y\<rfloor> \<le> y" "y < of_int \<lfloor>y\<rfloor> + 1" by linarith+
  then show ?thesis
    by (auto simp: round_half_even_def Let_def)
qed

lemma bitlen_pos: "0 < n \<Longrightarrow> 1 \<le> bitlen n"
  using bitlen_eq_zero_iff [of n] bitlen_nonneg [of n] by linarith

lemma bitlen_lower: "0 < n \<Longrightarrow> (2::rat) powi (bitlen n - 1) \<le> of_int n"
proof -
  assume n: "0 < n"
  have "2 ^ nat (bitlen n - 1) \<le> n" using bitlen_bounds [OF n] by simp
  then have "(of_int (2 ^ nat (bitlen n - 1)) :: rat) \<le> of_int n"
    by (simp only: of_int_le_iff)
  then show ?thesis using bitlen_pos [OF n] by (simp add: power_int_def)
qed

lemma bitlen_upper: "0 < n \<Longrightarrow> (of_int n :: rat) + 1 \<le> 2 powi (bitlen n)"
proof -
  assume n: "0 < n"
  have "n + 1 \<le> 2 ^ nat (bitlen n)" using bitlen_bounds [OF n] by simp
  then have "(of_int (n + 1) :: rat) \<le> of_int (2 ^ nat (bitlen n))"
    by (simp only: of_int_le_iff)
  then show ?thesis using bitlen_pos [OF n] by (simp add: power_int_def)
qed

lemma ilog2_lower:
  assumes "0 < x"
  shows "2 powi (ilog2 x) \<le> x"
proof (cases "1 \<le> x")
  case True
  then have n: "0 < \<lfloor>x\<rfloor>" by linarith
  have "(2::rat) powi (bitlen \<lfloor>x\<rfloor> - 1) \<le> of_int \<lfloor>x\<rfloor>" by (rule bitlen_lower [OF n])
  also have "\<dots> \<le> x" by simp
  finally show ?thesis using True by (simp add: ilog2_def)
next
  case False
  define c where "c = \<lceil>1 / x\<rceil>"
  have y: "1 < 1 / x" using assms False by simp
  then have c: "0 < c - 1" unfolding c_def by linarith
  have "1 / x \<le> of_int c" unfolding c_def by simp
  also have "\<dots> \<le> 2 powi (bitlen (c - 1))" using bitlen_upper [OF c] by simp
  finally have "1 / x \<le> 2 powi (bitlen (c - 1))" .
  then have "1 \<le> 2 powi (bitlen (c - 1)) * x"
    using assms by (simp add: pos_divide_le_eq)
  then have "1 / 2 powi (bitlen (c - 1)) \<le> x"
    by (simp add: pos_divide_le_eq mult.commute)
  then show ?thesis
    using False by (simp add: ilog2_def c_def power_int_minus field_simps)
qed

lemma ilog2_upper:
  assumes "0 < x"
  shows "x < 2 powi (ilog2 x + 1)"
proof (cases "1 \<le> x")
  case True
  then have n: "0 < \<lfloor>x\<rfloor>" by linarith
  have "x < of_int \<lfloor>x\<rfloor> + 1" by linarith
  also have "\<dots> \<le> 2 powi (bitlen \<lfloor>x\<rfloor>)" by (rule bitlen_upper [OF n])
  finally show ?thesis using True by (simp add: ilog2_def)
next
  case False
  define c where "c = \<lceil>1 / x\<rceil>"
  have y: "1 < 1 / x" using assms False by simp
  then have c: "0 < c - 1" unfolding c_def by linarith
  have p: "(0::rat) < 2 powi (bitlen (c - 1) - 1)" by simp
  have "(2::rat) powi (bitlen (c - 1) - 1) \<le> of_int (c - 1)" by (rule bitlen_lower [OF c])
  also have "\<dots> < 1 / x" unfolding c_def by linarith
  finally have "2 powi (bitlen (c - 1) - 1) * x < 1"
    using assms by (simp add: pos_less_divide_eq)
  then have "x < 1 / 2 powi (bitlen (c - 1) - 1)"
    using p by (simp add: pos_less_divide_eq mult.commute)
  also have "\<dots> = 2 powi (- (bitlen (c - 1) - 1))"
    by (simp only: power_int_minus divide_inverse mult_1)
  also have "- (bitlen (c - 1) - 1) = - bitlen (c - 1) + 1" by simp
  finally show ?thesis
    using False by (simp add: ilog2_def c_def)
qed


lemma round_double_error:
  assumes "x \<noteq> 0"
  shows "\<bar>round_double x - x\<bar> \<le> 2 powi (max (ilog2 \<bar>x\<bar> - 52) (- 1074)) / 2"
proof -
  define e where "e = max (ilog2 \<bar>x\<bar> - 52) (- 1074)"
  define q :: rat where "q = 2 powi e"
  define m where "m = round_half_even (\<bar>x\<bar> / q)"
  have q: "0 < q" unfolding q_def by simp
  have r: "round_double x = sgn x * of_int m * q"
    using assms by (simp add: round_double_def e_def q_def m_def Let_def)
  have "\<bar>of_int m - \<bar>x\<bar> / q\<bar> \<le> 1 / 2" unfolding m_def by (rule round_half_even_error)
  then have "\<bar>of_int m - \<bar>x\<bar> / q\<bar> * q \<le> 1 / 2 * q"
    using q by (simp only: mult_le_cancel_right_pos)
  moreover have "\<bar>of_int m - \<bar>x\<bar> / q\<bar> * q = \<bar>of_int m * q - \<bar>x\<bar>\<bar>"
  proof -
    have "\<bar>of_int m - \<bar>x\<bar> / q\<bar> * q = \<bar>(of_int m - \<bar>x\<bar> / q) * q\<bar>"
      using q by (simp add: abs_mult)
    also have "(of_int m - \<bar>x\<bar> / q) * q = of_int m * q - \<bar>x\<bar>"
      using q by (simp add: field_simps)
    finally show ?thesis .
  qed
  ultimately have a: "\<bar>of_int m * q - \<bar>x\<bar>\<bar> \<le> q / 2" by simp
  have "\<bar>round_double x - x\<bar> = \<bar>of_int m * q - \<bar>x\<bar>\<bar>"
  proof (cases "0 < x")
    case True
    then show ?thesis by (simp add: r)
  next
    case False
    then have "x < 0" using assms by simp
    then have "round_double x - x = - (of_int m * q - \<bar>x\<bar>)" by (simp add: r)
    then show ?thesis by (simp only: abs_minus_cancel)
  qed
  then show ?thesis using a by (simp add: q_def e_def)
qed

lemma round_double_nonneg: "0 \<le> x \<Longrightarrow> 0 \<le> round_double x"
proof -
  assume x: "0 \<le> x"
  have "0 \<le> round_half_even y" if "0 \<le> y" for y
    using that by (simp add: round_half_even_def Let_def)
  then have "0 \<le> round_half_even (\<bar>x\<bar> / 2 powi e)" for e by simp
  then show ?thesis using x by (simp add: round_double_def Let_def)
qed


lemma ilog2_less:
  assumes "0 < x" and "x < 2 powi k"
  shows "ilog2 x < k"
proof (rule ccontr)
  assume "\<not> ilog2 x < k"
  then have "k \<le> ilog2 x" by simp
  then have "(2::rat) powi k \<le> 2 powi (ilog2 x)" by (rule power_int_increasing) simp
  also have "\<dots> \<le> x" by (rule ilog2_lower [OF assms(1)])
  finally show False using assms(2) by simp
qed

lemma round_double_error_le:
  assumes "0 \<le> x" and "x < 2 powi k" and "- 1021 \<le> k"
  shows "\<bar>round_double x - x\<bar> \<le> 2 powi (k - 54)"
proof (cases "x = 0")
  case True
  then show ?thesis by (simp add: round_double_def)
next
  case False
  then have x: "0 < x" using assms(1) by simp
  have "ilog2 \<bar>x\<bar> < k" using ilog2_less [OF x assms(2)] x by simp
  then have "max (ilog2 \<bar>x\<bar> - 52) (- 1074) \<le> k - 53" using assms(3) by simp
  then have "(2::rat) powi (max (ilog2 \<bar>x\<bar> - 52) (- 1074)) \<le> 2 powi (k - 53)"
    by (rule power_int_increasing) simp
  also have "(2::rat) powi (k - 53) = 2 powi (k - 54) * 2"
    using power_int_add [of "2::rat" "k - 54" 1] by simp
  finally show ?thesis using round_double_error [OF False] by simp
qed

lemma round_double_percent:
  assumes "0 \<le> x" and "x \<le> 100"
  shows "\<bar>round_double x - x\<bar> \<le> 1 / 2 ^ 47"
proof -
  have "x < 2 powi 7" using assms(2) by simp
  from round_double_error_le [OF assms(1) this] show ?thesis
    by (simp add: power_int_minus)
qed

lemma round_double_nonpos: "x \<le> 0 \<Longrightarrow> round_double x \<le> 0"
proof -
  assume x: "x \<le> 0"
  have "0 \<le> round_half_even y" if "0 \<le> y" for y
    using that by (simp add: round_half_even_def Let_def)
  then have "0 \<le> (of_int (round_half_even (\<bar>x\<bar> / 2 powi e)) :: rat) * 2 powi e" for e by simp
  then show ?thesis using x
    by (cases "x = 0") (simp_all add: round_double_def Let_def mult.assoc)
qed

lemma round_double_eq_1:
  assumes "round_double z = 1"
  shows "\<bar>z - 1\<bar> \<le> 1 / 2 ^ 53"
proof -
  have z: "0 < z" using round_double_nonpos [of z] assms by (cases "0 < z") simp_all
  have "z < 2 powi 1"
  proof (rule ccontr)
    assume "\<not> z < 2 powi 1"
    then have z2: "2 \<le> z" by simp
    define k where "k = ilog2 z"
    have "2 powi 1 \<le> z" using z2 by simp
    have k1: "1 \<le> k"
    proof (rule ccontr)
      assume "\<not> 1 \<le> k"
      then have "k + 1 \<le> 1" by simp
      then have "(2::rat) powi (k + 1) \<le> 2 powi 1" by (rule power_int_increasing) simp
      then show False using ilog2_upper [OF z] z2 by (simp add: k_def)
    qed
    then have "max (ilog2 \<bar>z\<bar> - 52) (- 1074) = k - 52" using z by (simp add: k_def)
    then have "\<bar>round_double z - z\<bar> \<le> 2 powi (k - 52) / 2"
      using round_double_error [of z] z by simp
    also have "(2::rat) powi (k - 52) = 2 powi k * 2 powi (- 52)"
      using power_int_add [of "2::rat" k "- 52"] by simp
    also have "2 powi k * 2 powi (- 52) / 2 \<le> z * 2 powi (- 52) / (2::rat)"
      using ilog2_lower [OF z] by (simp add: k_def)
    finally have "\<bar>1 - z\<bar> \<le> z * 2 powi (- 52) / 2" using assms by simp
    then have "\<bar>1 - z\<bar> \<le> z / 2 ^ 53" by (simp add: power_int_minus)
    then have "z - 1 \<le> z / 2 ^ 53" by linarith
    then show False using z2 by simp
  qed
  from round_double_error_le [OF _ this] z assms show ?thesis
    by (simp add: power_int_minus abs_minus_commute)
qed

section \<open>Digits\<close>

text \<open>
  The digits of \<open>n\<close> denote \<open>n\<close>, and the string that \<^verbatim>\<open>toFixed(2)\<close> makes of the integer
  \<open>n\<close> denotes \<open>n / 100\<close>: the digits of \<open>n div 100\<close>, a point, and two more digits.
\<close>

lemma digit_cases:
  "d < (10::nat) \<Longrightarrow>
   d = 0 \<or> d = 1 \<or> d = 2 \<or> d = 3 \<or> d = 4 \<or> d = 5 \<or> d = 6 \<or> d = 7 \<or> d = 8 \<or> d = 9"
  by arith

lemma digit_value_digit_char: "d < 10 \<Longrightarrow> digit_value (digit_char d) = d"
  by (drule digit_cases) (auto simp: digit_value_def digit_char_def)

lemma digit_char_not_point: "d < 10 \<Longrightarrow> digit_char d \<noteq> CHR ''.''"
  by (drule digit_cases) (auto simp: digit_char_def)

lemma digits_nonempty: "digits n \<noteq> []"
  by (simp add: digits.simps [of n])

lemma decimal_value_snoc: "decimal_value (s @ [c]) = 10 * decimal_value s + digit_value c"
  by (simp add: decimal_value_def)

lemma decimal_value_digits: "decimal_value (digits n) = n"
proof (induction n rule: digits.induct)
  case (1 n)
  show ?case
  proof (cases "n < 10")
    case True
    then show ?thesis
      by (simp add: digits.simps [of n] decimal_value_def digit_value_digit_char)
  next
    case False
    then have "decimal_value (digits n) = 10 * decimal_value (digits (n div 10)) + n mod 10"
      by (simp add: digits.simps [of n] decimal_value_snoc digit_value_digit_char)
    then show ?thesis using 1 False by simp
  qed
qed

lemma digits_no_point: "CHR ''.'' \<notin> set (digits n)"
proof (induction n rule: digits.induct)
  case (1 n)
  show ?case
  proof (cases "n < 10")
    case True
    then show ?thesis using digit_char_not_point [of n] by (simp add: digits.simps [of n])
  next
    case False
    then show ?thesis
      using 1 digit_char_not_point [of "n mod 10"] by (simp add: digits.simps [of n])
  qed
qed

lemma fixed_string_2:
  "fixed_string 2 n =
     digits (n div 100) @ ''.'' @ [digit_char (n div 10 mod 10), digit_char (n mod 10)]"
proof -
  have a: "\<not> n < 10 \<Longrightarrow> digits n = digits (n div 10) @ [digit_char (n mod 10)]" for n
    by (simp add: digits.simps [of n])
  have b: "n < 10 \<Longrightarrow> digits n = [digit_char n]" for n
    by (simp add: digits.simps [of n])
  consider "n < 10" | "10 \<le> n" "n < 100" | "100 \<le> n" by linarith
  then show ?thesis
  proof cases
    case 1
    then show ?thesis by (simp add: fixed_string_def b digit_char_def)
  next
    case 2
    then have "n div 10 < 10" by simp
    then show ?thesis using 2 by (simp add: fixed_string_def a b digit_char_def)
  next
    case 3
    then have "\<not> n div 10 < 10" "\<not> n < 10" by simp_all
    then have d: "digits n = digits (n div 100) @ [digit_char (n div 10 mod 10), digit_char (n mod 10)]"
      by (simp add: a [of n] a [of "n div 10"] div_mult2_eq [symmetric])
    show ?thesis by (simp add: fixed_string_def d Let_def digits_nonempty)
  qed
qed

lemma fixed_value_fixed_string: "fixed_value (fixed_string 2 n) = of_nat n / 100"
proof -
  let ?a = "digits (n div 100)"
  let ?b = "[digit_char (n div 10 mod 10), digit_char (n mod 10)]"
  have tw: "takeWhile (\<lambda>c. c \<noteq> CHR ''.'') (?a @ ''.'' @ ?b) = ?a"
    using digits_no_point [of "n div 100"] by (auto simp: takeWhile_tail)
  have "decimal_value ?b = 10 * (n div 10 mod 10) + n mod 10"
    by (simp add: decimal_value_def digit_value_digit_char)
  also have "\<dots> = n mod 100"
    using mod_mult2_eq [of n 10 10] by simp
  finally have b: "decimal_value ?b = n mod 100" .
  have "fixed_value (fixed_string 2 n) = of_nat (n div 100) + of_nat (n mod 100) / 100"
    unfolding fixed_string_2 fixed_value_def tw Let_def
    by (simp add: decimal_value_digits b)
  also have "\<dots> = (100 * of_nat (n div 100) + of_nat (n mod 100)) / 100"
    by (simp add: add_divide_distrib)
  also have "100 * of_nat (n div 100) + of_nat (n mod 100) = (of_nat (100 * (n div 100) + n mod 100) :: rat)"
    by (simp only: of_nat_add of_nat_mult of_nat_numeral)
  also have "100 * (n div 100) + n mod 100 = n" by simp
  finally show ?thesis .
qed

section \<open>Percentages\<close>

text \<open>
  For a probability between 0 and 1 the product with 100 is a double close to the exact
  product, far below the bounds at which \<open>js_times\<close> and \<open>toFixed\<close> give up.
\<close>

lemma percent_in_range:
  assumes "0 \<le> p" and "p \<le> 1"
  shows "percent p = Some (fixed_string 2 (nat \<lfloor>round_double (p * 100) * 100 + 1 / 2\<rfloor>))"
    and "0 \<le> round_double (p * 100)"
    and "\<bar>round_double (p * 100) - p * 100\<bar> \<le> 1 / 2 ^ 47"
proof -
  define z where "z = round_double (p * 100)"
  have r: "0 \<le> p * 100" "p * 100 \<le> 100" using assms by simp_all
  show z0: "0 \<le> round_double (p * 100)" by (rule round_double_nonneg [OF r(1)])
  show e: "\<bar>round_double (p * 100) - p * 100\<bar> \<le> 1 / 2 ^ 47"
    by (rule round_double_percent [OF r])
  have "z \<le> 100 + 1 / 2 ^ 47" using e r(2) unfolding z_def by linarith
  then have z101: "z < 101" by simp
  have "(101::rat) < 2 ^ 1024" by simp
  then have big: "\<bar>z\<bar> < 2 ^ 1024" using z101 z0 unfolding z_def by linarith
  have small: "\<not> 10 ^ 21 \<le> \<bar>z\<bar>" using z101 z0 unfolding z_def by simp
  have "js_times p 100 = Some z"
    using big by (simp add: js_times_def z_def [symmetric] Let_def)
  moreover have "toFixed 2 z = Some (fixed_string 2 (nat \<lfloor>z * 100 + 1 / 2\<rfloor>))"
    using small z0 by (simp add: toFixed_def z_def [symmetric])
  ultimately show "percent p =
      Some (fixed_string 2 (nat \<lfloor>round_double (p * 100) * 100 + 1 / 2\<rfloor>))"
    by (simp add: percent_def z_def)
qed

lemma percents_sum:
  assumes b: "0 \<le> b" "b \<le> 1" and s: "0 \<le> s" "s \<le> 1"
    and one: "b + s = 1 \<or> round_double (b + s) = 1"
  shows "\<exists>ss sb. percent s = Some ss \<and> percent b = Some sb \<and>
           \<bar>fixed_value ss + fixed_value sb - 100\<bar> \<le> 1 / 100"
proof -
  define zs where "zs = round_double (s * 100)"
  define zb where "zb = round_double (b * 100)"
  define fs where "fs = \<lfloor>zs * 100 + 1 / 2\<rfloor>"
  define fb where "fb = \<lfloor>zb * 100 + 1 / 2\<rfloor>"
  note ps = percent_in_range [OF s, folded zs_def]
  note pb = percent_in_range [OF b, folded zb_def]
  have sum1: "\<bar>b + s - 1\<bar> \<le> 1 / 2 ^ 53"
    using one round_double_eq_1 [of "b + s"] by auto
  have fs: "of_int fs \<le> zs * 100 + 1 / 2" "zs * 100 + 1 / 2 < of_int fs + 1"
    unfolding fs_def by linarith+
  have fb: "of_int fb \<le> zb * 100 + 1 / 2" "zb * 100 + 1 / 2 < of_int fb + 1"
    unfolding fb_def by linarith+
  have fs0: "0 \<le> fs" unfolding fs_def using ps(2) by simp
  have fb0: "0 \<le> fb" unfolding fb_def using pb(2) by simp
  have e47: "(1::rat) / 2 ^ 47 \<le> 1 / 1000" by simp
  have e53: "(1::rat) / 2 ^ 53 \<le> 1 / 1000000" by simp
  have zs: "zs \<le> s * 100 + 1 / 1000" "s * 100 - 1 / 1000 \<le> zs"
    using ps(3) e47 by linarith+
  have zb: "zb \<le> b * 100 + 1 / 1000" "b * 100 - 1 / 1000 \<le> zb"
    using pb(3) e47 by linarith+
  have bs: "b + s \<le> 1 + 1 / 1000000" "1 - 1 / 1000000 \<le> b + s"
    using sum1 e53 by linarith+
  have up: "(of_int (fs + fb) :: rat) < 10002"
    using fs(1) fb(1) zs(1) zb(1) bs(1) by simp
  have lo: "(9998 :: rat) < of_int (fs + fb)"
    using fs(2) fb(2) zs(2) zb(2) bs(2) by simp
  have "fs + fb < 10002" using up by simp
  moreover have "9998 < fs + fb" using lo by simp
  ultimately have "fs + fb \<le> 10001" "9999 \<le> fs + fb" by simp_all
  then have "(of_int (fs + fb) :: rat) \<le> of_int 10001" "(of_int 9999 :: rat) \<le> of_int (fs + fb)"
    by (simp_all only: of_int_le_iff)
  then have nr: "(of_int fs :: rat) + of_int fb \<le> 10001" "(9999 :: rat) \<le> of_int fs + of_int fb"
    by simp_all
  have vs: "fixed_value (fixed_string 2 (nat fs)) = of_int fs / 100"
    using fs0 by (simp add: fixed_value_fixed_string)
  have vb: "fixed_value (fixed_string 2 (nat fb)) = of_int fb / 100"
    using fb0 by (simp add: fixed_value_fixed_string)
  have "(of_int fs :: rat) / 100 + of_int fb / 100 - 100 \<le> 1 / 100"
    using nr(1) by linarith
  moreover have "- (1 / 100) \<le> (of_int fs :: rat) / 100 + of_int fb / 100 - 100"
    using nr(2) by linarith
  ultimately have "\<bar>fixed_value (fixed_string 2 (nat fs)) +
      fixed_value (fixed_string 2 (nat fb)) - 100\<bar> \<le> 1 / 100"
    unfolding vs vb by (simp only: abs_le_iff) simp
  then show ?thesis
    using ps(1) pb(1) unfolding fs_def [symmetric] fb_def [symmetric] by blast
qed

section \<open>The number model at known values\<close>

text \<open>
  The doubles nearest to 0.92 and 0.08, and what JavaScript is known to print:
  \<^verbatim>\<open>0.07 * 100\<close> is \<^verbatim>\<open>7.000000000000001\<close>, \<^verbatim>\<open>(1.005).toFixed(2)\<close> is \<^verbatim>\<open>"1.00"\<close>, and the
  probabilities 0.12345 and 0.87655, whose sum in doubles is 1, are displayed as
  \<^verbatim>\<open>12.35\<close> and \<^verbatim>\<open>87.66\<close>.
\<close>

lemma double_92: "round_double (92 / 100) = 8286623314361713 / 9007199254740992"
  by code_simp

lemma double_92_times_100: "round_double (8286623314361713 / 9007199254740992 * 100) = 92"
  by code_simp

lemma double_8: "round_double (8 / 100) = 5764607523034235 / 72057594037927936"
  by code_simp

lemma double_8_times_100: "round_double (5764607523034235 / 72057594037927936 * 100) = 8"
  by code_simp

lemma double_92_plus_8:
  "round_double (8286623314361713 / 9007199254740992 + 5764607523034235 / 72057594037927936) = 1"
  by code_simp

lemma toFixed_92: "toFixed 2 92 = Some ''92.00''"
proof -
  have "\<lfloor>\<bar>92::rat\<bar> * 10 ^ 2 + 1 / 2\<rfloor> = 9200"
    by (simp add: floor_eq_iff)
  then show ?thesis
    by (simp add: toFixed_def fixed_string_def digits.simps digit_char_def)
qed

lemma toFixed_8: "toFixed 2 8 = Some ''8.00''"
proof -
  have "\<lfloor>\<bar>8::rat\<bar> * 10 ^ 2 + 1 / 2\<rfloor> = 800"
    by (simp add: floor_eq_iff)
  then show ?thesis
    by (simp add: toFixed_def fixed_string_def digits.simps digit_char_def)
qed

lemma percent_92: "percent (round_double (92 / 100)) = Some ''92.00''"
proof -
  have "js_times (round_double (92 / 100)) 100 = Some 92"
    by (simp only: js_times_def double_92 double_92_times_100 Let_def) simp
  then show ?thesis by (simp only: percent_def toFixed_92 Option.bind.simps)
qed

lemma percent_8: "percent (round_double (8 / 100)) = Some ''8.00''"
proof -
  have "js_times (round_double (8 / 100)) 100 = Some 8"
    by (simp only: js_times_def double_8 double_8_times_100 Let_def) simp
  then show ?thesis by (simp only: percent_def toFixed_8 Option.bind.simps)
qed

lemma fixed_value_92: "fixed_value ''92.00'' = 92"
  by (simp add: fixed_value_def decimal_value_def digit_value_def)

lemma fixed_value_8: "fixed_value ''8.00'' = 8"
  by (simp add: fixed_value_def decimal_value_def digit_value_def)

lemma double_7: "round_double (7 / 100) = 1261007895663739 / 18014398509481984"
  by code_simp

lemma double_7_times_100:
  "round_double (1261007895663739 / 18014398509481984 * 100) = 7881299347898369 / 1125899906842624"
  by code_simp

lemma js_times_7: "js_times (round_double (7 / 100)) 100 = Some (7881299347898369 / 1125899906842624)"
  by (simp only: js_times_def double_7 double_7_times_100 Let_def) simp

lemma double_1005: "round_double (1005 / 1000) = 1131529406376837 / 1125899906842624"
  by code_simp

lemma toFixed_1005: "toFixed 2 (round_double (1005 / 1000)) = Some ''1.00''"
proof -
  have "\<lfloor>\<bar>1131529406376837 / 1125899906842624 :: rat\<bar> * 10 ^ 2 + 1 / 2\<rfloor> = 100"
    by (simp add: floor_eq_iff)
  then show ?thesis
    unfolding double_1005
    by (simp add: toFixed_def fixed_string_def digits.simps digit_char_def)
qed

lemma double_12345: "round_double (12345 / 100000) = 2223877495995551 / 18014398509481984"
  by code_simp

lemma double_12345_times_100:
  "round_double (2223877495995551 / 18014398509481984 * 100) = 6949617174986097 / 562949953421312"
  by code_simp

lemma double_87655: "round_double (87655 / 100000) = 7895260506743217 / 9007199254740992"
  by code_simp

lemma double_87655_times_100:
  "round_double (7895260506743217 / 9007199254740992 * 100) = 3084086135446569 / 35184372088832"
  by code_simp

lemma double_12345_plus_87655:
  "round_double (7895260506743217 / 9007199254740992 + 2223877495995551 / 18014398509481984) = 1"
  by code_simp

lemma percent_12345: "percent (round_double (12345 / 100000)) = Some ''12.35''"
proof -
  have j: "js_times (round_double (12345 / 100000)) 100 = Some (6949617174986097 / 562949953421312)"
    by (simp only: js_times_def double_12345 double_12345_times_100 Let_def) simp
  have "\<lfloor>\<bar>6949617174986097 / 562949953421312 :: rat\<bar> * 10 ^ 2 + 1 / 2\<rfloor> = 1235"
    by (simp add: floor_eq_iff)
  then have "toFixed 2 (6949617174986097 / 562949953421312) = Some ''12.35''"
    by (simp add: toFixed_def fixed_string_def digits.simps digit_char_def)
  then show ?thesis by (simp only: percent_def j Option.bind.simps)
qed

lemma percent_87655: "percent (round_double (87655 / 100000)) = Some ''87.66''"
proof -
  have j: "js_times (round_double (87655 / 100000)) 100 = Some (3084086135446569 / 35184372088832)"
    by (simp only: js_times_def double_87655 double_87655_times_100 Let_def) simp
  have "\<lfloor>\<bar>3084086135446569 / 35184372088832 :: rat\<bar> * 10 ^ 2 + 1 / 2\<rfloor> = 8766"
    by (simp add: floor_eq_iff)
  then have "toFixed 2 (3084086135446569 / 35184372088832) = Some ''87.66''"
    by (simp add: toFixed_def fixed_string_def digits.simps digit_char_def)
  then show ?thesis by (simp only: percent_def j Option.bind.simps)
qed

lemma percentages_sum_not_always_100:
  "round_double (bonafide (probabilities skewed_body) + spoof (probabilities skewed_body)) = 1 \<and>
   spoofProbability skewed_body = Some ''12.35'' \<and>
   bonafideProbability skewed_body = Some ''87.66'' \<and>
   fixed_value ''12.35'' + fixed_value ''87.66'' = 100 + 1 / 100"
proof -
  have "round_double (bonafide (probabilities skewed_body) + spoof (probabilities skewed_body)) = 1"
    by (simp only: skewed_body_def AnalysisResult.select_convs Probabilities.select_convs
        double_12345 double_87655 double_12345_plus_87655)
  moreover have "spoofProbability skewed_body = Some ''12.35''"
    by (simp only: spoofProbability_def skewed_body_def AnalysisResult.select_convs
        Probabilities.select_convs percent_12345)
  moreover have "bonafideProbability skewed_body = Some ''87.66''"
    by (simp only: bonafideProbability_def skewed_body_def AnalysisResult.select_convs
        Probabilities.select_convs percent_87655)
  moreover have "fixed_value ''12.35'' + fixed_value ''87.66'' = 100 + 1 / 100"
    by (simp add: fixed_value_def decimal_value_def digit_value_def)
  ultimately show ?thesis by simp
qed

section \<open>Settlement with a success\<close>

text \<open>
  Claim C2. Let a file be selected and \<open>isLoading\<close> be false, let the user click the
  analyze button and then do anything at all, and let the request settle with a status
  in 200 to 299 and the body \<^verbatim>\<open>{prediction: "bonafide", probabilities: {bonafide: 0.92,
  spoof: 0.08}, spectrogram_png: ...}\<close>, the numbers read as doubles. After the
  settlement \<open>isLoading\<close> is false, the result is that body, its prediction is bonafide,
  there is no error, and the confidence displayed is \<^verbatim>\<open>92.00\<close>.
\<close>

theorem success_settlement:
  assumes "file_sel s = Some f" and "\<not> isLoading s"
    and "\<forall>ev\<in>set evs. user_event ev"
    and "200 \<le> status r" and "status r \<le> 299"
    and "json r = JsonData d"
    and "d = \<lparr>prediction = Bonafide,
               probabilities = \<lparr>bonafide = round_double (92 / 100), spoof = round_double (8 / 100)\<rparr>,
               spectrogram_png = png\<rparr>"
  shows "isLoading (settle (FetchResolved r) (fold step evs (AnalyzeButton s))) = False \<and>
         result (settle (FetchResolved r) (fold step evs (AnalyzeButton s))) = Some d \<and>
         prediction d = Bonafide \<and>
         error (settle (FetchResolved r) (fold step evs (AnalyzeButton s))) = None \<and>
         confidence d = Some ''92.00''"
proof -
  let ?a = "AnalyzeButton s"
  have a: "isLoading ?a" "result ?a = None" "error ?a = None"
    using assms(1,2) by (simp_all add: AnalyzeButton_starts)
  have t: "try_block (FetchResolved r) = Inr d"
    using assms(4,5,6) by (simp add: try_block_def ok_def)
  have st: "isLoading (settle (FetchResolved r) (fold step evs ?a)) = False \<and>
        result (settle (FetchResolved r) (fold step evs ?a)) = Some d \<and>
        error (settle (FetchResolved r) (fold step evs ?a)) = None"
    using user_events_while_loading [OF a assms(3)] by (simp add: settle_def t)
  have p: "prediction d = Bonafide" by (simp add: assms(7))
  have "probability_of (probabilities d) (prediction d) = round_double (92 / 100)"
    unfolding assms(7) by (simp only: probability_of_def AnalysisResult.select_convs
        Probabilities.select_convs prediction.case)
  then have "confidence d = Some ''92.00''"
    by (simp only: confidence_def percent_92)
  then show ?thesis using st p by simp
qed

theorem success_settlement_witness:
  "file_sel selected = Some wav \<and> \<not> isLoading selected \<and> user_event (Drop [flac]) \<and>
   settle (FetchResolved \<lparr>status = 200, statusText = ''OK'', json = JsonData bonafide_body\<rparr>)
     (fold step [Drop [flac]] (AnalyzeButton selected)) =
   \<lparr>file_sel = Some flac, result = Some bonafide_body, isLoading = False, error = None,
    inflight = []\<rparr> \<and>
   prediction bonafide_body = Bonafide \<and> confidence bonafide_body = Some ''92.00''"
proof -
  let ?r = "\<lparr>status = 200, statusText = ''OK'', json = JsonData bonafide_body\<rparr>"
  have h1: "file_sel selected = Some wav" and h2: "\<not> isLoading selected"
    by (simp_all add: selected_def)
  have h3: "\<forall>ev\<in>set [Drop [flac]]. user_event ev" by (simp add: user_event_def)
  have h4: "200 \<le> status ?r" and h5: "status ?r \<le> 299" and h6: "json ?r = JsonData bonafide_body"
    by simp_all
  note c = success_settlement [OF h1 h2 h3 h4 h5 h6 bonafide_body_def]
  have "settle (FetchResolved ?r) (fold step [Drop [flac]] (AnalyzeButton selected)) =
        \<lparr>file_sel = Some flac, result = Some bonafide_body, isLoading = False, error = None,
         inflight = []\<rparr>"
    by (simp add: selected_def step_def onDrop_def AnalyzeButton_def handleAnalyze_def settle_def
        try_block_def ok_def)
  then show ?thesis using c h1 h2 by (simp add: user_event_def)
qed

section \<open>The two percentages\<close>

text \<open>
  Claim C10. For every result whose two probabilities lie between 0 and 1 and sum to 1,
  exactly or as JavaScript adds them, the spoof percentage and the bonafide percentage
  are both displayed, and the numbers the two strings denote sum to 100 within one
  hundredth, the rounding of the two displays. (\<open>percentages_sum_not_always_100\<close> is a
  result for which the sum is 100.01.)
\<close>

theorem percentages_sum_near_100:
  assumes "0 \<le> bonafide (probabilities r)" and "bonafide (probabilities r) \<le> 1"
    and "0 \<le> spoof (probabilities r)" and "spoof (probabilities r) \<le> 1"
    and "bonafide (probabilities r) + spoof (probabilities r) = 1 \<or>
         round_double (bonafide (probabilities r) + spoof (probabilities r)) = 1"
  shows "\<exists>ss sb. spoofProbability r = Some ss \<and> bonafideProbability r = Some sb \<and>
           \<bar>fixed_value ss + fixed_value sb - 100\<bar> \<le> 1 / 100"
  using percents_sum [OF assms] by (simp add: spoofProbability_def bonafideProbability_def)

theorem percentages_sum_near_100_witness:
  "0 \<le> bonafide (probabilities bonafide_body) \<and> bonafide (probabilities bonafide_body) \<le> 1 \<and>
   0 \<le> spoof (probabilities bonafide_body) \<and> spoof (probabilities bonafide_body) \<le> 1 \<and>
   round_double (bonafide (probabilities bonafide_body) + spoof (probabilities bonafide_body)) = 1 \<and>
   (\<exists>ss sb. spoofProbability bonafide_body = Some ss \<and> bonafideProbability bonafide_body = Some sb \<and>
      \<bar>fixed_value ss + fixed_value sb - 100\<bar> \<le> 1 / 100) \<and>
   spoofProbability bonafide_body = Some ''8.00'' \<and>
   bonafideProbability bonafide_body = Some ''92.00'' \<and>
   fixed_value ''8.00'' + fixed_value ''92.00'' = 100"
proof -
  have b: "bonafide (probabilities bonafide_body) = 8286623314361713 / 9007199254740992"
    by (simp only: bonafide_body_def AnalysisResult.select_convs Probabilities.select_convs
        double_92)
  have s: "spoof (probabilities bonafide_body) = 5764607523034235 / 72057594037927936"
    by (simp only: bonafide_body_def AnalysisResult.select_convs Probabilities.select_convs
        double_8)
  have h1: "0 \<le> bonafide (probabilities bonafide_body)"
    and h2: "bonafide (probabilities bonafide_body) \<le> 1"
    and h3: "0 \<le> spoof (probabilities bonafide_body)"
    and h4: "spoof (probabilities bonafide_body) \<le> 1"
    unfolding b s by simp_all
  have h5: "round_double (bonafide (probabilities bonafide_body) +
      spoof (probabilities bonafide_body)) = 1"
    unfolding b s by (rule double_92_plus_8)
  note c = percentages_sum_near_100 [OF h1 h2 h3 h4 disjI2 [OF h5]]
  have ps: "spoofProbability bonafide_body = Some ''8.00''"
    by (simp only: spoofProbability_def bonafide_body_def AnalysisResult.select_convs
        Probabilities.select_convs percent_8)
  have pb: "bonafideProbability bonafide_body = Some ''92.00''"
    by (simp only: bonafideProbability_def bonafide_body_def AnalysisResult.select_convs
        Probabilities.select_convs percent_92)
  show ?thesis using h1 h2 h3 h4 h5 c ps pb by (simp add: fixed_value_92 fixed_value_8)
qed

end
